theory Spec2Isabelle
  imports Main
begin

section \<open>TransMarkSet: the markset format of transmarkset.js\<close>

text \<open>
  A JavaScript value that is either \<open>null\<close>/\<open>undefined\<close> or a string is a
  \<open>string option\<close>. Such a value is truthy exactly when it is a non-empty string.
\<close>

definition truthy :: "string option \<Rightarrow> bool" where
  "truthy x = (case x of None \<Rightarrow> False | Some s \<Rightarrow> s \<noteq> [])"

text \<open>\<open>TransMarkSet.types = {TEXT: 'text', TIP: 'tip', VALUE: 'value'}\<close>.\<close>

definition TEXT :: string where "TEXT = ''text''"
definition TIP :: string where "TIP = ''tip''"
definition VALUE :: string where "VALUE = ''value''"

lemmas types_defs = TEXT_def TIP_def VALUE_def

text \<open>The separator class \<open>[:;]\<close> of the regular expression in \<open>getMark_\<close>.\<close>

definition is_sep :: "char \<Rightarrow> bool" where
  "is_sep c = (c = CHR '':'' \<or> c = CHR '';'')"

text \<open>
  \<open>markset.split(/[:;]/)\<close>: the string is cut at every separator character; empty
  pieces are kept, so a string with \<open>k\<close> separators gives \<open>k + 1\<close> pieces and the
  empty string gives the one piece \<open>''''\<close>.
\<close>

function split_marks :: "string \<Rightarrow> string list" where
  "split_marks s =
     takeWhile (\<lambda>c. \<not> is_sep c) s #
       (case dropWhile (\<lambda>c. \<not> is_sep c) s of
          [] \<Rightarrow> []
        | _ # rest \<Rightarrow> split_marks rest)"
  by pat_completeness auto
termination
proof (relation "measure length")
  show "wf (measure length)" by simp
next
  fix s :: string and x rest
  assume "dropWhile (\<lambda>c. \<not> is_sep c) s = x # rest"
  then have "length rest < length (dropWhile (\<lambda>c. \<not> is_sep c) s)" by simp
  also have "\<dots> \<le> length s" by (rule length_dropWhile_le)
  finally show "(rest, s) \<in> measure length" by simp
qed

declare split_marks.simps [simp del]

text \<open>
  The loop of \<open>getMark_\<close>:
  \<open>for (var i = 0; i < marks.length - 1; i += 2)\<close>, returning \<open>marks[i + 1]\<close> at
  the first \<open>i\<close> with \<open>marks[i] == type\<close>, and \<open>null\<close> when the loop runs out.
\<close>

function getMark_loop :: "string list \<Rightarrow> string \<Rightarrow> nat \<Rightarrow> string option" where
  "getMark_loop marks type i =
     (if i < length marks - 1
      then (let name = marks ! i; mark = marks ! (i + 1)
            in if name = type then Some mark else getMark_loop marks type (i + 2))
      else None)"
  by pat_completeness auto
termination
  by (relation "measure (\<lambda>(marks, type, i). length marks - i)") auto

declare getMark_loop.simps [simp del]

definition getMark :: "string \<Rightarrow> string \<Rightarrow> string option" where
  "getMark markset type =
     (let marks = split_marks markset
      in if length marks < 2 then None else getMark_loop marks type 0)"

text \<open>
  The names \<open>getMark_\<close>, \<open>fillMark_\<close>, \<open>getText_\<close> ... of the source lose
  their final underscore here, which a constant name cannot end with.

  \<open>fillMark_\<close>: each truthy name adds \<open>type + ':' + name + ';'\<close>; an empty result
  is \<open>null\<close>, any other loses its last character (\<open>slice(0, -1)\<close>).
\<close>

definition fill_part :: "string \<Rightarrow> string option \<Rightarrow> string" where
  "fill_part type name =
     (case name of
        None \<Rightarrow> []
      | Some n \<Rightarrow> if truthy name then type @ '':'' @ n @ '';'' else [])"

definition fillMark :: "string option \<Rightarrow> string option \<Rightarrow> string option \<Rightarrow> string option" where
  "fillMark text tip val =
     (let markset = [];
          markset = markset @ fill_part TEXT text;
          markset = markset @ fill_part TIP tip;
          markset = markset @ fill_part VALUE val
      in if markset = [] then None else Some (butlast markset))"



subsection \<open>The language table\<close>

text \<open>
  Modelled from the spec: \<open>SettingEditorLanguage\<close> (languages.js) is not part of the
  sources at hand; it is the table with the three mappings \<open>texts\<close>, \<open>tips\<close> and
  \<open>values\<close> from mark name to localized string. It is a parameter of every function
  that reads it. A mapping answers \<open>None\<close> where the JavaScript property read gives
  \<open>undefined\<close>.
\<close>

record language =
  lang_texts :: "string \<rightharpoonup> string"
  lang_tips :: "string \<rightharpoonup> string"
  lang_values :: "string \<rightharpoonup> string"

text \<open>
  The property read \<open>table[mark]\<close>. The key of a property read is a string: JavaScript
  converts \<open>null\<close> to the string \<open>'null'\<close> before the table is consulted.
\<close>

definition property_key :: "string option \<Rightarrow> string" where
  "property_key mark = (case mark of None \<Rightarrow> ''null'' | Some k \<Rightarrow> k)"

definition getText :: "'l language_scheme \<Rightarrow> string \<Rightarrow> string option" where
  "getText lang markset = (let mark = getMark markset TEXT in lang_texts lang (property_key mark))"

definition getTip :: "'l language_scheme \<Rightarrow> string \<Rightarrow> string option" where
  "getTip lang markset = (let mark = getMark markset TIP in lang_tips lang (property_key mark))"

definition getValue :: "'l language_scheme \<Rightarrow> string \<Rightarrow> string option" where
  "getValue lang markset = (let mark = getMark markset VALUE in lang_values lang (property_key mark))"

subsection \<open>Elements\<close>

text \<open>
  An element has its attributes (\<open>getAttribute\<close> gives \<open>null\<close> for a missing one),
  its \<open>innerHTML\<close>, its \<open>value\<close> and its \<open>tip\<close> property (fields \<open>elem_value\<close> and
  \<open>elem_tip\<close>; \<open>undefined\<close> until set). Whatever else an element holds is the
  extension part of the record. A SELECT element has its \<open>options\<close> besides.
\<close>

record element =
  attributes :: "string \<rightharpoonup> string"
  innerHTML :: string
  elem_value :: string
  elem_tip :: "string option"

record select_element = element +
  options :: "element list"

text \<open>
  Modelled from the spec: the constant \<open>TRANSMARK_ATTRNAME\<close> is declared outside the
  sources at hand; the marker attribute is named \<open>transmark\<close>.
\<close>

definition TRANSMARK_ATTRNAME :: string where
  "TRANSMARK_ATTRNAME = ''transmark''"

definition getElementTip :: "'l language_scheme \<Rightarrow> 'a element_scheme \<Rightarrow> string option" where
  "getElementTip lang elem =
     (case attributes elem TRANSMARK_ATTRNAME of
        None \<Rightarrow> None
      | Some mark \<Rightarrow>
          if mark \<noteq> [] then
            (let tip = getTip lang mark in
             case tip of
               None \<Rightarrow> None
             | Some t \<Rightarrow>
                 if truthy tip then
                   (case attributes elem ''range'' of
                      None \<Rightarrow> Some t
                    | Some range_attr \<Rightarrow>
                        if range_attr \<noteq> [] then Some (t @ '' Range='' @ range_attr) else Some t)
                 else None)
          else None)"

definition getElementValue :: "'l language_scheme \<Rightarrow> 'a element_scheme \<Rightarrow> string option" where
  "getElementValue lang elem =
     (case attributes elem TRANSMARK_ATTRNAME of
        None \<Rightarrow> None
      | Some mark \<Rightarrow>
          if mark \<noteq> [] then
            (let val = getValue lang mark in if truthy val then val else None)
          else None)"

definition getElementText :: "'l language_scheme \<Rightarrow> 'a element_scheme \<Rightarrow> string option" where
  "getElementText lang elem =
     (case attributes elem TRANSMARK_ATTRNAME of
        None \<Rightarrow> None
      | Some mark \<Rightarrow>
          if mark \<noteq> [] then
            (let text = getText lang mark in if truthy text then text else None)
          else None)"

subsection \<open>The appliers\<close>

text \<open>
  Modelled from the spec: \<open>Tips.schedule\<close> is a collaborator outside the sources at
  hand, called for its effect only. The model records each call: the second component of
  an applier's state is the list of the elements scheduled so far, each as it was when
  it was handed over. \<open>Util.array.apply\<close>, outside the sources too, calls the function
  on every entry of the option list in turn.

  The source has no \<open>throw\<close>, and \<open>split\<close> is only called on a marker attribute
  that is a non-empty string, so an applier has no error result: it takes the element and
  the schedule and returns both.
\<close>

definition transLanguageForSpanElem ::
  "'l language_scheme \<Rightarrow> 'a element_scheme \<Rightarrow> 'a element_scheme list \<Rightarrow>
   'a element_scheme \<times> 'a element_scheme list" where
  "transLanguageForSpanElem lang elem scheduled =
     (let text = getElementText lang elem;
          elem = (case text of
                    None \<Rightarrow> elem
                  | Some t \<Rightarrow> if truthy text then elem\<lparr>innerHTML := t\<rparr> else elem);
          tip = getElementTip lang elem
      in if truthy tip
         then (let elem = elem\<lparr>elem_tip := tip\<rparr> in (elem, scheduled @ [elem]))
         else (elem, scheduled))"

definition transLanguageForInputElem ::
  "'l language_scheme \<Rightarrow> 'a element_scheme \<Rightarrow> 'a element_scheme list \<Rightarrow>
   'a element_scheme \<times> 'a element_scheme list" where
  "transLanguageForInputElem lang elem scheduled =
     (let val = getElementValue lang elem;
          elem = (case val of
                    None \<Rightarrow> elem
                  | Some v \<Rightarrow> if truthy val then elem\<lparr>elem_value := v\<rparr> else elem);
          tip = getElementTip lang elem
      in if truthy tip
         then (let elem = elem\<lparr>elem_tip := tip\<rparr> in (elem, scheduled @ [elem]))
         else (elem, scheduled))"

definition trans_option :: "'l language_scheme \<Rightarrow> 'a element_scheme \<Rightarrow> 'a element_scheme" where
  "trans_option lang option =
     (let text = getElementText lang option
      in case text of
           None \<Rightarrow> option
         | Some t \<Rightarrow> if truthy text then option\<lparr>innerHTML := t\<rparr> else option)"

definition transLanguageForSelectElem ::
  "'l language_scheme \<Rightarrow> 'a select_element_scheme \<Rightarrow> 'a select_element_scheme list \<Rightarrow>
   'a select_element_scheme \<times> 'a select_element_scheme list" where
  "transLanguageForSelectElem lang elem scheduled =
     (let tip = getElementTip lang elem;
          (elem, scheduled) =
            (if truthy tip
             then (let elem = elem\<lparr>elem_tip := tip\<rparr> in (elem, scheduled @ [elem]))
             else (elem, scheduled))
      in (elem\<lparr>options := map (trans_option lang) (options elem)\<rparr>, scheduled))"

definition transLanguageForLinkElem ::
  "'l language_scheme \<Rightarrow> 'a element_scheme \<Rightarrow> 'a element_scheme list \<Rightarrow>
   'a element_scheme \<times> 'a element_scheme list" where
  "transLanguageForLinkElem lang elem scheduled =
     (let tip = getElementTip lang elem
      in if truthy tip
         then (let elem = elem\<lparr>elem_tip := tip\<rparr> in (elem, scheduled @ [elem]))
         else (elem, scheduled))"

section \<open>Notions used to state the properties\<close>

text \<open>
  The tokens of a markset read two by two, as the loop of \<open>getMark_\<close> steps through
  them: a last token without a partner is left out.
\<close>

fun pairs :: "string list \<Rightarrow> (string \<times> string) list" where
  "pairs (name # mark # rest) = (name, mark) # pairs rest"
| "pairs _ = []"

definition first_match :: "string \<Rightarrow> (string \<times> string) list \<Rightarrow> string option" where
  "first_match type ps = map_option snd (find (\<lambda>p. fst p = type) ps)"

fun flatten :: "(string \<times> string) list \<Rightarrow> string list" where
  "flatten [] = []"
| "flatten ((c, n) # ps) = c # n # flatten ps"

definition sep_free :: "string \<Rightarrow> bool" where
  "sep_free s = (\<forall>c \<in> set s. \<not> is_sep c)"

text \<open>A mark name handed to the builder: absent, or a non-empty string without \<open>:\<close> and \<open>;\<close>.\<close>

definition valid_name :: "string option \<Rightarrow> bool" where
  "valid_name name = (case name of None \<Rightarrow> True | Some n \<Rightarrow> n \<noteq> [] \<and> sep_free n)"

text \<open>The pairs the builder writes: one for each truthy name, in the order text, tip, value.\<close>

definition present :: "string \<Rightarrow> string option \<Rightarrow> (string \<times> string) list" where
  "present type name =
     (case name of None \<Rightarrow> [] | Some n \<Rightarrow> if n = [] then [] else [(type, n)])"

definition present_pairs ::
  "string option \<Rightarrow> string option \<Rightarrow> string option \<Rightarrow> (string \<times> string) list" where
  "present_pairs text tip val = present TEXT text @ present TIP tip @ present VALUE val"

definition piece :: "string \<times> string \<Rightarrow> string" where
  "piece p = fst p @ '':'' @ snd p @ '';''"


text \<open>
  A well-formed markset: the empty string, or tokens that alternate a category among
  text, tip, value and a non-empty name (a token never holds a separator). A category
  may come more than once.
\<close>

fun well_formed_tokens :: "string list \<Rightarrow> bool" where
  "well_formed_tokens [] = True"
| "well_formed_tokens [t] = False"
| "well_formed_tokens (c # n # rest) =
     ((c = TEXT \<or> c = TIP \<or> c = VALUE) \<and> n \<noteq> [] \<and> well_formed_tokens rest)"

definition well_formed :: "string \<Rightarrow> bool" where
  "well_formed markset = (markset = [] \<or> well_formed_tokens (split_marks markset))"

text \<open>The category-to-name pairs a markset holds; \<open>null\<close>, no markset, holds none.\<close>

definition markset_pairs :: "string option \<Rightarrow> (string \<times> string) set" where
  "markset_pairs m = (case m of None \<Rightarrow> {} | Some markset \<Rightarrow> set (pairs (split_marks markset)))"

text \<open>No category is paired with two different names.\<close>

definition single_named :: "(string \<times> string) list \<Rightarrow> bool" where
  "single_named ps = (\<forall>p \<in> set ps. \<forall>q \<in> set ps. fst p = fst q \<longrightarrow> snd p = snd q)"



text \<open>
  Nothing to apply for a category: the marker attribute is missing or empty, or the
  lookup for the category gives no string or the empty one.
\<close>

definition nothing_for ::
  "('l language_scheme \<Rightarrow> string \<Rightarrow> string option) \<Rightarrow> 'l language_scheme \<Rightarrow> 'a element_scheme \<Rightarrow> bool" where
  "nothing_for get lang elem =
     (case attributes elem TRANSMARK_ATTRNAME of
        None \<Rightarrow> True
      | Some mark \<Rightarrow> mark = [] \<or> \<not> truthy (get lang mark))"

subsection \<open>Inputs for the examples\<close>

text \<open>
  The language table of the examples, with the tips as a parameter, and elements that
  hold the given attributes and nothing yet of what the appliers set.
\<close>

definition example_language :: "(string \<rightharpoonup> string) \<Rightarrow> language" where
  "example_language tip_table =
     \<lparr>lang_texts = [''titleMark'' \<mapsto> ''Site Map''], lang_tips = tip_table,
      lang_values = Map.empty\<rparr>"

definition example_element :: "(string \<rightharpoonup> string) \<Rightarrow> element" where
  "example_element attrs =
     \<lparr>attributes = attrs, innerHTML = ''old'', elem_value = ''old'', elem_tip = None\<rparr>"


section \<open>Splitting and scanning\<close>

lemma split_marks_sep_free: "sep_free a \<Longrightarrow> split_marks a = [a]"
proof -
  assume "sep_free a"
  then have tw: "takeWhile (\<lambda>c. \<not> is_sep c) a = a"
    and dw: "dropWhile (\<lambda>c. \<not> is_sep c) a = []"
    by (simp_all add: sep_free_def)
  show ?thesis by (subst split_marks.simps) (simp only: tw dw list.case)
qed

lemma split_marks_append:
  assumes "sep_free a" "is_sep d"
  shows "split_marks (a @ d # rest) = a # split_marks rest"
proof -
  from assms have "takeWhile (\<lambda>c. \<not> is_sep c) (a @ d # rest) = a"
    by (simp add: sep_free_def takeWhile_append2)
  moreover from assms have "dropWhile (\<lambda>c. \<not> is_sep c) (a @ d # rest) = d # rest"
    by (simp add: sep_free_def dropWhile_append2)
  ultimately show ?thesis
    by (subst split_marks.simps) simp
qed

lemma split_marks_tokens: "t \<in> set (split_marks s) \<Longrightarrow> sep_free t"
proof (induction s arbitrary: t rule: split_marks.induct)
  case (1 s)
  from "1.prems" have "t = takeWhile (\<lambda>c. \<not> is_sep c) s \<or>
      (\<exists>x rest. dropWhile (\<lambda>c. \<not> is_sep c) s = x # rest \<and> t \<in> set (split_marks rest))"
    by (subst (asm) split_marks.simps) (cases "dropWhile (\<lambda>c. \<not> is_sep c) s", auto)
  then show ?case
  proof
    assume "t = takeWhile (\<lambda>c. \<not> is_sep c) s"
    then show ?thesis by (auto simp: sep_free_def dest: set_takeWhileD)
  next
    assume "\<exists>x rest. dropWhile (\<lambda>c. \<not> is_sep c) s = x # rest \<and> t \<in> set (split_marks rest)"
    then show ?thesis using "1.IH" by blast
  qed
qed

lemma split_marks_nonempty: "split_marks s \<noteq> []"
  by (subst split_marks.simps) simp

lemma getMark_loop_pairs:
  "getMark_loop marks type i = first_match type (pairs (drop i marks))"
proof (induction marks type i rule: getMark_loop.induct)
  case (1 marks type i)
  show ?case
  proof (cases "i < length marks - 1")
    case True
    then have lt: "i < length marks" "Suc i < length marks" by auto
    have d: "drop i marks = marks ! i # marks ! (i + 1) # drop (i + 2) marks"
      using lt by (simp add: Cons_nth_drop_Suc)
    show ?thesis
    proof (cases "marks ! i = type")
      case True
      with \<open>i < length marks - 1\<close> show ?thesis
        by (subst getMark_loop.simps) (simp add: d first_match_def)
    next
      case False
      with \<open>i < length marks - 1\<close> "1.IH" show ?thesis
        by (subst getMark_loop.simps) (simp add: d first_match_def Let_def)
    qed
  next
    case False
    then have "length (drop i marks) \<le> 1" by simp
    then have "pairs (drop i marks) = []"
      by (cases "drop i marks" rule: pairs.cases) auto
    with False show ?thesis
      by (subst getMark_loop.simps) (simp add: first_match_def)
  qed
qed

lemma getMark_pairs: "getMark markset type = first_match type (pairs (split_marks markset))"
proof (cases "length (split_marks markset) < 2")
  case True
  then have "pairs (split_marks markset) = []"
    by (cases "split_marks markset" rule: pairs.cases) auto
  with True show ?thesis by (simp add: getMark_def first_match_def)
next
  case False
  then show ?thesis by (simp add: getMark_def getMark_loop_pairs)
qed

lemma pairs_flatten: "pairs (flatten ps) = ps"
  by (induction ps) auto

lemma split_encode:
  assumes "ps \<noteq> []" "\<forall>p \<in> set ps. sep_free (fst p) \<and> sep_free (snd p)"
  shows "split_marks (butlast (concat (map piece ps))) = flatten ps"
  using assms
proof (induction ps)
  case Nil
  then show ?case by simp
next
  case (Cons p ps)
  obtain c n where p: "p = (c, n)" by (cases p)
  from Cons.prems p have cn: "sep_free c" "sep_free n" by auto
  show ?case
  proof (cases "ps = []")
    case True
    have "butlast (piece (c, n)) = c @ CHR '':'' # n"
      by (simp add: piece_def butlast_append)
    then show ?thesis using True p cn
      by (simp add: split_marks_append split_marks_sep_free is_sep_def)
  next
    case False
    then have ne: "concat (map piece ps) \<noteq> []"
      by (cases ps) (auto simp: piece_def)
    have "butlast (concat (map piece (p # ps)))
        = c @ CHR '':'' # n @ CHR '';'' # butlast (concat (map piece ps))"
      using ne p by (simp add: piece_def butlast_append)
    then show ?thesis using Cons.IH False Cons.prems p cn
      by (simp add: split_marks_append is_sep_def)
  qed
qed

lemma fill_part_piece: "fill_part type name = concat (map piece (present type name))"
  by (simp add: fill_part_def present_def piece_def truthy_def split: option.splits)

lemma fillMark_encode:
  "fillMark text tip val =
     (if present_pairs text tip val = [] then None
      else Some (butlast (concat (map piece (present_pairs text tip val)))))"
  by (auto simp: fillMark_def fill_part_piece present_pairs_def present_def piece_def split: option.splits)

section \<open>Building, then extracting\<close>

lemma types_sep_free: "sep_free TEXT" "sep_free TIP" "sep_free VALUE"
  by (simp_all add: types_defs sep_free_def is_sep_def)

lemma types_distinct: "TEXT \<noteq> TIP" "TEXT \<noteq> VALUE" "TIP \<noteq> VALUE"
  by (simp_all add: types_defs)

lemma present_sep_free:
  "valid_name name \<Longrightarrow> sep_free type \<Longrightarrow> p \<in> set (present type name) \<Longrightarrow> sep_free (fst p) \<and> sep_free (snd p)"
  by (auto simp: valid_name_def present_def split: option.splits if_splits)

lemma present_pairs_sep_free:
  assumes "valid_name text" "valid_name tip" "valid_name val"
  shows "\<forall>p \<in> set (present_pairs text tip val). sep_free (fst p) \<and> sep_free (snd p)"
  using assms present_sep_free types_sep_free
  unfolding present_pairs_def by (metis Un_iff set_append)

lemma fillMark_pairs:
  assumes "valid_name text" "valid_name tip" "valid_name val"
    and "fillMark text tip val = Some markset"
  shows "pairs (split_marks markset) = present_pairs text tip val"
proof -
  let ?ps = "present_pairs text tip val"
  from assms(4) have ne: "?ps \<noteq> []" and m: "markset = butlast (concat (map piece ?ps))"
    by (auto simp: fillMark_encode split: if_splits)
  have "split_marks markset = flatten ?ps"
    unfolding m using ne present_pairs_sep_free [OF assms(1-3)] by (rule split_encode)
  then show ?thesis by (simp add: pairs_flatten)
qed

lemma first_match_present_pairs:
  assumes "valid_name text" "valid_name tip" "valid_name val"
  shows "first_match TEXT (present_pairs text tip val) = text"
    and "first_match TIP (present_pairs text tip val) = tip"
    and "first_match VALUE (present_pairs text tip val) = val"
  using assms types_distinct
  by (auto simp: first_match_def present_pairs_def present_def valid_name_def split: option.splits)

text \<open>
  Claim C1. For names that are each absent or a non-empty string without \<open>:\<close> and
  \<open>;\<close>, at least one of them present, the builder gives a markset, and extracting a
  category from it gives back the name supplied for that category: the name itself where
  one was given, \<open>null\<close> where it was absent.
\<close>

theorem getMark_fillMark:
  assumes "valid_name text" "valid_name tip" "valid_name val"
    and "text \<noteq> None \<or> tip \<noteq> None \<or> val \<noteq> None"
  shows "\<exists>markset. fillMark text tip val = Some markset \<and>
           getMark markset TEXT = text \<and> getMark markset TIP = tip \<and> getMark markset VALUE = val"
proof -
  from assms have "present_pairs text tip val \<noteq> []"
    by (auto simp: present_pairs_def present_def valid_name_def split: option.splits)
  then obtain markset where m: "fillMark text tip val = Some markset"
    by (simp add: fillMark_encode)
  have "pairs (split_marks markset) = present_pairs text tip val"
    using assms(1-3) m by (rule fillMark_pairs)
  then have "getMark markset TEXT = text" "getMark markset TIP = tip" "getMark markset VALUE = val"
    using first_match_present_pairs [OF assms(1-3)] by (simp_all add: getMark_pairs)
  with m show ?thesis by blast
qed

theorem getMark_fillMark_witness:
  "valid_name (Some ''title'') \<and> valid_name None \<and> valid_name (Some ''ok'') \<and>
   fillMark (Some ''title'') None (Some ''ok'') = Some ''text:title;value:ok'' \<and>
   getMark ''text:title;value:ok'' TEXT = Some ''title'' \<and>
   getMark ''text:title;value:ok'' TIP = None \<and>
   getMark ''text:title;value:ok'' VALUE = Some ''ok''"
proof -
  have v: "valid_name (Some ''title'')" "valid_name None" "valid_name (Some ''ok'')"
    by (simp_all add: valid_name_def sep_free_def is_sep_def)
  have f: "fillMark (Some ''title'') None (Some ''ok'') = Some ''text:title;value:ok''"
    by (simp add: fillMark_def fill_part_def truthy_def types_defs)
  from getMark_fillMark [OF v] f v show ?thesis by simp
qed

section \<open>Names that hold a separator\<close>

lemma first_match_in_tokens:
  "first_match type (pairs ts) = Some x \<Longrightarrow> x \<in> set ts"
  by (induction ts rule: pairs.induct) (auto simp: first_match_def split: if_splits)

lemma getMark_sep_free: "getMark markset type = Some x \<Longrightarrow> sep_free x"
  using first_match_in_tokens split_marks_tokens by (fastforce simp: getMark_pairs)

lemma fillMark_embeds:
  assumes "n \<noteq> []"
  shows "\<exists>pre post. fillMark (Some n) tip val = Some (pre @ TEXT @ '':'' @ n @ post)"
    and "\<exists>pre post. fillMark text (Some n) val = Some (pre @ TIP @ '':'' @ n @ post)"
    and "\<exists>pre post. fillMark text tip (Some n) = Some (pre @ VALUE @ '':'' @ n @ post)"
proof -
  let ?rest = "fill_part TIP tip @ fill_part VALUE val"
  have "fillMark (Some n) tip val = Some ([] @ TEXT @ '':'' @ n @ butlast ('';'' @ ?rest))"
    using assms by (simp add: fillMark_def fill_part_def truthy_def butlast_append)
  then show "\<exists>pre post. fillMark (Some n) tip val = Some (pre @ TEXT @ '':'' @ n @ post)"
    by blast
next
  let ?rest = "fill_part VALUE val"
  have "fillMark text (Some n) val = Some (fill_part TEXT text @ TIP @ '':'' @ n @ butlast ('';'' @ ?rest))"
    using assms by (simp add: fillMark_def fill_part_def truthy_def butlast_append)
  then show "\<exists>pre post. fillMark text (Some n) val = Some (pre @ TIP @ '':'' @ n @ post)"
    by blast
next
  have "fillMark text tip (Some n) = Some ((fill_part TEXT text @ fill_part TIP tip) @ VALUE @ '':'' @ n @ [])"
    using assms by (simp add: fillMark_def fill_part_def[of VALUE] truthy_def butlast_append)
  then show "\<exists>pre post. fillMark text tip (Some n) = Some (pre @ VALUE @ '':'' @ n @ post)"
    by blast
qed

text \<open>
  Claim C10. A name that holds \<open>:\<close> or \<open>;\<close> is written into the markset as it is, so
  the builder gives a markset and not \<open>null\<close>; extracting the category of that name
  from the markset never gives the name back, whatever the other two names are. The
  round trip of extraction after building therefore needs names without separators.
\<close>

theorem separator_in_name_not_recovered:
  assumes "(type, name) \<in> {(TEXT, text), (TIP, tip), (VALUE, val)}"
    and "name = Some n" and "\<not> sep_free n"
  shows "\<exists>markset pre post. fillMark text tip val = Some markset \<and>
           markset = pre @ type @ '':'' @ n @ post \<and> getMark markset type \<noteq> Some n"
proof -
  from assms(3) have ne: "n \<noteq> []" by (auto simp: sep_free_def)
  from assms(1,2) obtain pre post
    where m: "fillMark text tip val = Some (pre @ type @ '':'' @ n @ post)"
    using fillMark_embeds [OF ne] by auto blast+
  have "getMark (pre @ type @ '':'' @ n @ post) type \<noteq> Some n"
    using assms(3) getMark_sep_free by blast
  with m show ?thesis by blast
qed

theorem separator_in_name_not_recovered_witness:
  "(TIP, Some ''a:b'') \<in> {(TEXT, None), (TIP, Some ''a:b''), (VALUE, None)} \<and>
   \<not> sep_free ''a:b'' \<and>
   fillMark None (Some ''a:b'') None = Some ''tip:a:b'' \<and>
   getMark ''tip:a:b'' TIP \<noteq> Some ''a:b''"
proof -
  have s: "\<not> sep_free ''a:b''" by (simp add: sep_free_def is_sep_def)
  have f: "fillMark None (Some ''a:b'') None = Some ''tip:a:b''"
    by (simp add: fillMark_def fill_part_def truthy_def types_defs)
  from separator_in_name_not_recovered [of TIP "Some ''a:b''" None "Some ''a:b''" None "''a:b''", OF _ refl s] f s
  show ?thesis by simp
qed

section \<open>Short and odd token lists, duplicate categories\<close>

lemma pairs_short: "length ts < 2 \<Longrightarrow> pairs ts = []"
  by (cases ts rule: pairs.cases) auto

lemma pairs_odd_butlast: "odd (length ts) \<Longrightarrow> pairs (butlast ts) = pairs ts"
  by (induction ts rule: pairs.induct) auto

lemma getMark_loop_from_start:
  "getMark_loop marks type 0 = first_match type (pairs marks)"
  by (simp add: getMark_loop_pairs)

text \<open>
  Claim C5, as the source has it. A markset of fewer than two tokens gives \<open>null\<close> for
  every type. A markset with an odd number of tokens is not refused: its last token has
  no partner and is left out, and the scan of the tokens before it decides the result.
\<close>

theorem getMark_short_or_odd:
  "(length (split_marks markset) < 2 \<longrightarrow> getMark markset type = None) \<and>
   (odd (length (split_marks markset)) \<longrightarrow>
      getMark markset type = getMark_loop (butlast (split_marks markset)) type 0)"
  by (simp add: getMark_pairs getMark_loop_from_start pairs_short pairs_odd_butlast first_match_def)

theorem getMark_short_or_odd_witness:
  "length (split_marks ''text'') < 2 \<and> odd (length (split_marks ''text'')) \<and>
   getMark ''text'' TEXT = None \<and>
   getMark ''text'' TEXT = getMark_loop (butlast (split_marks ''text'')) TEXT 0 \<and>
   odd (length (split_marks ''tip:b;text:a;'')) \<and>
   getMark ''tip:b;text:a;'' TEXT = getMark_loop (butlast (split_marks ''tip:b;text:a;'')) TEXT 0"
proof -
  have s: "split_marks ''text'' = [''text'']" by code_simp
  have l: "length (split_marks ''text'') < 2" "odd (length (split_marks ''text''))"
    by (simp_all add: s)
  have s': "split_marks ''tip:b;text:a;'' = [''tip'', ''b'', ''text'', ''a'', []]" by code_simp
  have l': "odd (length (split_marks ''tip:b;text:a;''))"
    by (simp add: s')
  from getMark_short_or_odd [of "''text''" TEXT] getMark_short_or_odd [of "''tip:b;text:a;''" TEXT] l l'
  show ?thesis by blast
qed

text \<open>
  The claim as worded fails: \<open>text:a;\<close> splits into the three tokens \<open>text\<close>, \<open>a\<close> and
  the empty string, and the text mark is found.
\<close>

theorem getMark_odd_counterexample:
  "odd (length (split_marks ''text:a;'')) \<and> getMark ''text:a;'' TEXT = Some ''a''"
  by code_simp

lemma getMark_loop_skip:
  assumes "\<forall>j. i \<le> j \<and> j < k \<longrightarrow> marks ! (2 * j) \<noteq> type"
    and "marks ! (2 * k) = type" and "2 * k + 1 < length marks" and "i \<le> k"
  shows "getMark_loop marks type (2 * i) = Some (marks ! (2 * k + 1))"
  using assms
proof (induction "k - i" arbitrary: i)
  case 0
  then have "i = k" by simp
  with 0 show ?case by (subst getMark_loop.simps) (simp add: Let_def)
next
  case (Suc d)
  then have lt: "i < k" by simp
  with Suc.prems have "marks ! (2 * i) \<noteq> type" by simp
  moreover have "2 * i < length marks - 1" using lt Suc.prems by simp
  moreover have "getMark_loop marks type (2 * Suc i) = Some (marks ! (2 * k + 1))"
    using Suc.hyps(2) Suc.prems lt by (intro Suc.hyps(1)) auto
  ultimately show ?case by (subst getMark_loop.simps) (simp add: Let_def)
qed

text \<open>
  Claim C6. The scan looks at the tokens at the even indices 0, 2, 4, ... in the order of
  the string. Where the token at index \<open>2 * k\<close> is the type asked for, has a partner,
  and no token at an earlier even index is that type, the result is the token at
  \<open>2 * k + 1\<close>: the first matching pair wins, whatever pairs of the same type follow it.
\<close>

theorem getMark_first_match_wins:
  assumes "marks = split_marks markset"
    and "2 * k + 1 < length marks"
    and "marks ! (2 * k) = type"
    and "\<forall>j<k. marks ! (2 * j) \<noteq> type"
  shows "getMark markset type = Some (marks ! (2 * k + 1))"
proof -
  have "getMark_loop marks type (2 * 0) = Some (marks ! (2 * k + 1))"
    using assms by (intro getMark_loop_skip) auto
  moreover have "\<not> length marks < 2" using assms(2) by simp
  ultimately show ?thesis using assms(1) by (simp add: getMark_def)
qed

theorem getMark_first_match_wins_witness:
  "2 * 1 + 1 < length (split_marks ''tip:t;text:a;text:b'') \<and>
   split_marks ''tip:t;text:a;text:b'' ! (2 * 1) = TEXT \<and>
   split_marks ''tip:t;text:a;text:b'' ! (2 * 0) \<noteq> TEXT \<and>
   split_marks ''tip:t;text:a;text:b'' ! 4 = TEXT \<and>
   getMark ''tip:t;text:a;text:b'' TEXT = Some ''a''"
proof -
  have s: "split_marks ''tip:t;text:a;text:b'' = [''tip'', ''t'', ''text'', ''a'', ''text'', ''b'']"
    by code_simp
  have h: "2 * 1 + 1 < length (split_marks ''tip:t;text:a;text:b'')"
    "split_marks ''tip:t;text:a;text:b'' ! (2 * 1) = TEXT"
    "\<forall>j<1. split_marks ''tip:t;text:a;text:b'' ! (2 * j) \<noteq> TEXT"
    by (simp_all add: s types_defs)
  from getMark_first_match_wins [OF refl h] h show ?thesis by (simp add: s types_defs)
qed

section \<open>The builder's result\<close>







section \<open>Modifying a markset\<close>


section \<open>Extracting, then building\<close>

lemma well_formed_tokens_pairs:
  "well_formed_tokens ts \<Longrightarrow> (c, n) \<in> set (pairs ts) \<Longrightarrow>
     (c = TEXT \<or> c = TIP \<or> c = VALUE) \<and> n \<noteq> [] \<and> n \<in> set ts"
  by (induction ts rule: well_formed_tokens.induct) auto

lemma first_match_Some_mem: "first_match type ps = Some n \<Longrightarrow> (type, n) \<in> set ps"
  by (induction ps) (auto simp: first_match_def split: if_splits)

lemma first_match_None: "first_match type ps = None \<Longrightarrow> (type, n) \<notin> set ps"
  by (induction ps) (auto simp: first_match_def split: if_splits)

lemma markset_pairs_fillMark:
  assumes "valid_name text" "valid_name tip" "valid_name val"
  shows "markset_pairs (fillMark text tip val) = set (present_pairs text tip val)"
proof (cases "fillMark text tip val")
  case None
  then have "present_pairs text tip val = []"
    by (simp add: fillMark_encode split: if_splits)
  with None show ?thesis by (simp add: markset_pairs_def)
next
  case (Some markset)
  with assms show ?thesis by (simp add: markset_pairs_def fillMark_pairs)
qed

lemma set_present_pairs:
  "set (present_pairs text tip val) =
     {(c, n). n \<noteq> [] \<and> ((c = TEXT \<and> text = Some n) \<or> (c = TIP \<and> tip = Some n) \<or>
        (c = VALUE \<and> val = Some n))}"
  by (auto simp: present_pairs_def present_def split: option.splits if_splits)

lemma rebuilt_pairs:
  assumes wf: "well_formed_tokens ts" and toks: "\<forall>t \<in> set ts. sep_free t"
    and single: "single_named (pairs ts)"
  shows "set (present_pairs (first_match TEXT (pairs ts)) (first_match TIP (pairs ts))
            (first_match VALUE (pairs ts))) = set (pairs ts)"
    (is "set (present_pairs ?t ?p ?v) = set ?ps")
proof (rule set_eqI)
  fix x :: "string \<times> string"
  obtain c n where x: "x = (c, n)" by (cases x)
  show "x \<in> set (present_pairs ?t ?p ?v) \<longleftrightarrow> x \<in> set ?ps"
  proof
    assume "x \<in> set (present_pairs ?t ?p ?v)"
    then have "first_match c ?ps = Some n"
      unfolding x set_present_pairs by auto
    then show "x \<in> set ?ps" unfolding x by (rule first_match_Some_mem)
  next
    assume mem: "x \<in> set ?ps"
    with wf have c: "c = TEXT \<or> c = TIP \<or> c = VALUE" and n: "n \<noteq> []"
      using well_formed_tokens_pairs unfolding x by blast+
    from mem obtain n' where f: "first_match c ?ps = Some n'"
      using first_match_None [of c ?ps n] unfolding x by (cases "first_match c ?ps") auto
    then have "(c, n') \<in> set ?ps" by (rule first_match_Some_mem)
    with mem single have "n' = n"
      unfolding x single_named_def by fastforce
    with f c n show "x \<in> set (present_pairs ?t ?p ?v)"
      unfolding x set_present_pairs by auto
  qed
qed

lemma first_match_valid:
  assumes "well_formed_tokens ts" "\<forall>t \<in> set ts. sep_free t"
  shows "valid_name (first_match type (pairs ts))"
proof (cases "first_match type (pairs ts)")
  case None
  then show ?thesis by (simp add: valid_name_def)
next
  case (Some n)
  then have "(type, n) \<in> set (pairs ts)" by (rule first_match_Some_mem)
  with assms have "n \<noteq> [] \<and> sep_free n"
    using well_formed_tokens_pairs by blast
  with Some show ?thesis by (simp add: valid_name_def)
qed

text \<open>
  Claim C2, as the source has it. For a well-formed markset in which no category is
  paired with two different names, the markset rebuilt from the three extracted names
  holds exactly the category-to-name pairs of the original, whatever their order and
  however often a pair is repeated; it is \<open>null\<close> only for the empty markset.
\<close>

theorem fillMark_getMark:
  assumes "well_formed markset" and "single_named (pairs (split_marks markset))"
  shows "markset_pairs (fillMark (getMark markset TEXT) (getMark markset TIP) (getMark markset VALUE))
           = markset_pairs (Some markset) \<and>
         (markset \<noteq> [] \<longrightarrow>
            fillMark (getMark markset TEXT) (getMark markset TIP) (getMark markset VALUE) \<noteq> None)"
proof (cases "markset = []")
  case True
  have "split_marks [] = [[]]" by (simp add: split_marks_sep_free sep_free_def)
  then have "getMark [] TEXT = None" "getMark [] TIP = None" "getMark [] VALUE = None"
    "pairs (split_marks []) = []"
    by (simp_all add: getMark_def)
  moreover have "fillMark None None None = None" by (simp add: fillMark_def fill_part_def)
  ultimately show ?thesis using True by (simp add: markset_pairs_def)
next
  case False
  let ?ts = "split_marks markset"
  from False assms(1) have wf: "well_formed_tokens ?ts" by (simp add: well_formed_def)
  have toks: "\<forall>t \<in> set ?ts. sep_free t" using split_marks_tokens by blast
  have valid: "valid_name (getMark markset TEXT)" "valid_name (getMark markset TIP)"
    "valid_name (getMark markset VALUE)"
    using wf toks by (simp_all add: getMark_pairs first_match_valid)
  have eq: "markset_pairs (fillMark (getMark markset TEXT) (getMark markset TIP) (getMark markset VALUE))
      = set (pairs ?ts)"
    using rebuilt_pairs [OF wf toks assms(2)]
    by (simp add: markset_pairs_fillMark [OF valid]) (simp add: getMark_pairs)
  have "pairs ?ts \<noteq> []"
    using wf split_marks_nonempty [of markset] by (cases ?ts rule: well_formed_tokens.cases) auto
  with eq have "fillMark (getMark markset TEXT) (getMark markset TIP) (getMark markset VALUE) \<noteq> None"
    by (auto simp: markset_pairs_def split: option.splits)
  with eq show ?thesis by (simp add: markset_pairs_def)
qed

theorem fillMark_getMark_witness:
  "well_formed ''value:v;text:a;value:v'' \<and>
   single_named (pairs (split_marks ''value:v;text:a;value:v'')) \<and>
   fillMark (getMark ''value:v;text:a;value:v'' TEXT) (getMark ''value:v;text:a;value:v'' TIP)
     (getMark ''value:v;text:a;value:v'' VALUE) = Some ''text:a;value:v'' \<and>
   markset_pairs (Some ''text:a;value:v'') = markset_pairs (Some ''value:v;text:a;value:v'')"
proof -
  have s: "split_marks ''value:v;text:a;value:v'' = [''value'', ''v'', ''text'', ''a'', ''value'', ''v'']"
    by code_simp
  have w: "well_formed ''value:v;text:a;value:v''"
    by (simp add: well_formed_def s types_defs)
  have n: "single_named (pairs (split_marks ''value:v;text:a;value:v''))"
    by (simp add: s single_named_def)
  have g: "getMark ''value:v;text:a;value:v'' TEXT = Some ''a''"
    "getMark ''value:v;text:a;value:v'' TIP = None"
    "getMark ''value:v;text:a;value:v'' VALUE = Some ''v''"
    by (simp_all add: getMark_pairs s first_match_def types_defs)
  have f: "fillMark (Some ''a'') None (Some ''v'') = Some ''text:a;value:v''"
    by (simp add: fillMark_def fill_part_def truthy_def types_defs)
  from fillMark_getMark [OF w n] w n show ?thesis by (simp add: g f)
qed

text \<open>
  The claim as worded fails where a category comes twice with different names: the
  pair \<open>(text, b)\<close> of \<open>text:a;text:b\<close> is not in the rebuilt markset \<open>text:a\<close>.
\<close>

theorem fillMark_getMark_counterexample:
  "well_formed ''text:a;text:b'' \<and>
   fillMark (getMark ''text:a;text:b'' TEXT) (getMark ''text:a;text:b'' TIP)
     (getMark ''text:a;text:b'' VALUE) = Some ''text:a'' \<and>
   (''text'', ''b'') \<in> markset_pairs (Some ''text:a;text:b'') \<and>
   (''text'', ''b'') \<notin> markset_pairs (Some ''text:a'')"
proof -
  have s: "split_marks ''text:a;text:b'' = [''text'', ''a'', ''text'', ''b'']"
    "split_marks ''text:a'' = [''text'', ''a'']"
    by code_simp+
  have g: "getMark ''text:a;text:b'' TEXT = Some ''a''"
    "getMark ''text:a;text:b'' TIP = None"
    "getMark ''text:a;text:b'' VALUE = None"
    by (simp_all add: getMark_pairs s first_match_def types_defs)
  have f: "fillMark (Some ''a'') None None = Some ''text:a''"
    by (simp add: fillMark_def fill_part_def truthy_def types_defs)
  have w: "well_formed ''text:a;text:b''"
    by (simp add: well_formed_def s types_defs)
  have m: "(''text'', ''b'') \<in> markset_pairs (Some ''text:a;text:b'')"
    "(''text'', ''b'') \<notin> markset_pairs (Some ''text:a'')"
    by (simp_all add: markset_pairs_def s)
  from w m show ?thesis by (simp add: g f)
qed

section \<open>The appliers\<close>


lemma getElementTip_innerHTML [simp]:
  "getElementTip lang (elem\<lparr>innerHTML := h\<rparr>) = getElementTip lang elem"
  by (simp add: getElementTip_def Let_def split: option.splits)

lemma getElementTip_elem_value [simp]:
  "getElementTip lang (elem\<lparr>elem_value := v\<rparr>) = getElementTip lang elem"
  by (simp add: getElementTip_def Let_def split: option.splits)





lemma link_tip:
  "elem_tip (fst (transLanguageForLinkElem lang elem scheduled)) =
     (if truthy (getElementTip lang elem) then getElementTip lang elem else elem_tip elem)"
  "snd (transLanguageForLinkElem lang elem scheduled) = scheduled \<longleftrightarrow>
     \<not> truthy (getElementTip lang elem)"
  by (simp_all add: transLanguageForLinkElem_def Let_def)




section \<open>Nothing to apply\<close>




lemma unresolved_name_nothing:
  assumes "attributes elem TRANSMARK_ATTRNAME = Some mark"
  shows "getMark mark TEXT = Some k \<Longrightarrow> lang_texts lang k = None \<Longrightarrow> nothing_for getText lang elem"
    and "getMark mark TIP = Some k \<Longrightarrow> lang_tips lang k = None \<Longrightarrow> nothing_for getTip lang elem"
    and "getMark mark VALUE = Some k \<Longrightarrow> lang_values lang k = None \<Longrightarrow> nothing_for getValue lang elem"
  using assms
  by (simp_all add: nothing_for_def getText_def getTip_def getValue_def property_key_def truthy_def)



lemma select_options:
  "options (fst (transLanguageForSelectElem lang elem scheduled)) =
     map (trans_option lang) (options elem)"
  by (simp add: transLanguageForSelectElem_def Let_def)





text \<open>
  Where the scan finds no name for the category, \<open>getTip_\<close> reads the table with
  \<open>null\<close>, that is under the key \<open>null\<close>; a table with an entry of that name gives a
  tip to an element whose markset has no tip at all.
\<close>

lemma absent_mark_reads_null_key:
  "getMark ''text:titleMark'' TIP = None \<and>
   elem_tip (fst (transLanguageForLinkElem (example_language [''null'' \<mapsto> ''x''])
     (example_element [''transmark'' \<mapsto> ''text:titleMark'']) [])) = Some ''x''"
proof -
  have g: "getMark ''text:titleMark'' TIP = None" by code_simp
  have "getElementTip (example_language [''null'' \<mapsto> ''x''])
      (example_element [''transmark'' \<mapsto> ''text:titleMark'']) = Some ''x''"
    by (simp add: getElementTip_def getTip_def g property_key_def truthy_def
        example_language_def example_element_def TRANSMARK_ATTRNAME_def)
  then show ?thesis
    using g by (simp add: link_tip truthy_def)
qed

section \<open>What the appliers leave alone\<close>

text \<open>
  Claim C9. An applier returns the element it was given with new values in its own
  fields at most: the span applier in \<open>innerHTML\<close> and the tip, the input applier in the
  value and the tip, the select applier in its tip and, for each option, in the
  option's \<open>innerHTML\<close>, the link applier in the tip. The attributes, the marker and
  \<open>range\<close> among them, and whatever else the element holds are as before.
\<close>

theorem appliers_change_own_fields_only:
  "(\<exists>h t. fst (transLanguageForSpanElem lang elem scheduled) = elem\<lparr>innerHTML := h, elem_tip := t\<rparr>) \<and>
   (\<exists>v t. fst (transLanguageForInputElem lang elem scheduled) = elem\<lparr>elem_value := v, elem_tip := t\<rparr>) \<and>
   (\<exists>t f. fst (transLanguageForSelectElem lang sel scheduled')
      = sel\<lparr>elem_tip := t, options := map (\<lambda>option. option\<lparr>innerHTML := f option\<rparr>) (options sel)\<rparr>) \<and>
   (\<exists>t. fst (transLanguageForLinkElem lang elem scheduled) = elem\<lparr>elem_tip := t\<rparr>) \<and>
   attributes (fst (transLanguageForSpanElem lang elem scheduled)) = attributes elem \<and>
   attributes (fst (transLanguageForInputElem lang elem scheduled)) = attributes elem \<and>
   attributes (fst (transLanguageForSelectElem lang sel scheduled')) = attributes sel \<and>
   map attributes (options (fst (transLanguageForSelectElem lang sel scheduled')))
     = map attributes (options sel) \<and>
   attributes (fst (transLanguageForLinkElem lang elem scheduled)) = attributes elem"
proof -
  have span: "\<exists>h t. fst (transLanguageForSpanElem lang elem scheduled) = elem\<lparr>innerHTML := h, elem_tip := t\<rparr>"
  proof -
    have "\<exists>h. fst (transLanguageForSpanElem lang elem scheduled)
        = elem\<lparr>innerHTML := h, elem_tip := elem_tip (fst (transLanguageForSpanElem lang elem scheduled))\<rparr>"
      by (cases "getElementText lang elem")
        (auto simp: transLanguageForSpanElem_def Let_def intro: exI [of _ "innerHTML elem"])
    then show ?thesis by blast
  qed
  have input: "\<exists>v t. fst (transLanguageForInputElem lang elem scheduled) = elem\<lparr>elem_value := v, elem_tip := t\<rparr>"
  proof -
    have "\<exists>v. fst (transLanguageForInputElem lang elem scheduled)
        = elem\<lparr>elem_value := v, elem_tip := elem_tip (fst (transLanguageForInputElem lang elem scheduled))\<rparr>"
      by (cases "getElementValue lang elem")
        (auto simp: transLanguageForInputElem_def Let_def intro: exI [of _ "elem_value elem"])
    then show ?thesis by blast
  qed
  have opt: "trans_option lang option = option\<lparr>innerHTML := innerHTML (trans_option lang option)\<rparr>"
    for option :: element
    by (simp add: trans_option_def Let_def split: option.splits)
  have sel_eq: "fst (transLanguageForSelectElem lang sel scheduled')
      = sel\<lparr>elem_tip := elem_tip (fst (transLanguageForSelectElem lang sel scheduled')),
            options := map (\<lambda>option. option\<lparr>innerHTML := innerHTML (trans_option lang option)\<rparr>) (options sel)\<rparr>"
    using opt by (simp add: transLanguageForSelectElem_def Let_def)
  have select: "\<exists>t f. fst (transLanguageForSelectElem lang sel scheduled')
      = sel\<lparr>elem_tip := t, options := map (\<lambda>option. option\<lparr>innerHTML := f option\<rparr>) (options sel)\<rparr>"
    by (rule exI [of _ "elem_tip (fst (transLanguageForSelectElem lang sel scheduled'))"],
        rule exI [of _ "\<lambda>option. innerHTML (trans_option lang option)"], rule sel_eq)
  have "fst (transLanguageForLinkElem lang elem scheduled)
      = elem\<lparr>elem_tip := elem_tip (fst (transLanguageForLinkElem lang elem scheduled))\<rparr>"
    by (simp add: transLanguageForLinkElem_def Let_def)
  then have link: "\<exists>t. fst (transLanguageForLinkElem lang elem scheduled) = elem\<lparr>elem_tip := t\<rparr>"
    by blast
  have attrs: "attributes (fst (transLanguageForSpanElem lang elem scheduled)) = attributes elem"
    "attributes (fst (transLanguageForInputElem lang elem scheduled)) = attributes elem"
    "attributes (fst (transLanguageForSelectElem lang sel scheduled')) = attributes sel"
    "attributes (fst (transLanguageForLinkElem lang elem scheduled)) = attributes elem"
    by (simp_all add: transLanguageForSpanElem_def transLanguageForInputElem_def
        transLanguageForSelectElem_def transLanguageForLinkElem_def Let_def split: option.splits)
  have "attributes (trans_option lang option) = attributes option" for option :: element
    by (simp add: trans_option_def Let_def split: option.splits)
  then have oattrs: "map attributes (options (fst (transLanguageForSelectElem lang sel scheduled')))
     = map attributes (options sel)"
    by (simp add: select_options)
  from span input select link attrs oattrs show ?thesis by blast
qed

end
